theory Spec2Isabelle
  imports Complex_Main
begin

section \<open>The PDF collaborator: rectangles, words, pages\<close>

text \<open>
  The annotator of \<^verbatim>\<open>auto_sign.py\<close> works on a PyMuPDF document. Coordinates are
  modelled as exact rationals. A rectangle is PyMuPDF's \<^verbatim>\<open>Rect\<close> with its four
  fields; a word is the tuple \<^verbatim>\<open>(x0, y0, x1, y1, text, ...)\<close> that
  \<^verbatim>\<open>page.get_text("words")\<close> yields (the trailing block, line and word numbers are
  never read by the code).
\<close>

record rect =
  x0 :: rat
  y0 :: rat
  x1 :: rat
  y1 :: rat

record word =
  wx0 :: rat
  wy0 :: rat
  wx1 :: rat
  wy1 :: rat
  wtxt :: string

type_synonym point = "rat \<times> rat"
type_synonym color = "rat \<times> rat \<times> rat"

text \<open>What the code adds to a page: \<^verbatim>\<open>draw_line(p1, p2, color, width)\<close> and
  \<^verbatim>\<open>insert_text(point, text, fontsize, fontname, fill)\<close>.\<close>

datatype drawing =
  Line point point color rat
| Text point string rat string color

text \<open>
  A page answers the two queries the code uses, \<^verbatim>\<open>get_text("words")\<close> and
  \<^verbatim>\<open>search_for(needle)\<close>, from its text layer, and collects what is drawn on it.
  The answers of \<^verbatim>\<open>search_for\<close> are arbitrary per needle: nothing is assumed about
  how the hits of different needles relate. Both queries read the text layer the
  document was loaded with: what the annotator draws is kept in \<open>contents\<close> and is not
  searched again.
\<close>

record page =
  get_text_words :: "word list"
  search_for :: "string \<Rightarrow> rect list"
  contents :: "drawing list"

type_synonym document = "page list"

datatype error = IndexError

definition red :: color where
  "red = (1, 0, 0)"

definition draw_line :: "point \<Rightarrow> point \<Rightarrow> color \<Rightarrow> rat \<Rightarrow> page \<Rightarrow> page" where
  "draw_line a b c wd pg = pg\<lparr>contents := contents pg @ [Line a b c wd]\<rparr>"

definition insert_text :: "point \<Rightarrow> string \<Rightarrow> rat \<Rightarrow> string \<Rightarrow> color \<Rightarrow> page \<Rightarrow> page" where
  "insert_text pt s fontsize fontname fill pg =
     pg\<lparr>contents := contents pg @ [Text pt s fontsize fontname fill]\<rparr>"

text \<open>Truth value of a \<^verbatim>\<open>Rect\<close> in a Python condition: PyMuPDF's \<^verbatim>\<open>Rect.__bool__\<close>
  is false exactly for the rectangle whose four coordinates are all zero.\<close>

definition rect_bool :: "rect \<Rightarrow> bool" where
  "rect_bool r = (\<not> (x0 r = 0 \<and> y0 r = 0 \<and> x1 r = 0 \<and> y1 r = 0))"

text \<open>Vertical centre of a rectangle, \<^verbatim>\<open>(r.y0 + r.y1) / 2\<close>.\<close>

definition y_center :: "rect \<Rightarrow> rat" where
  "y_center r = (y0 r + y1 r) / 2"

subsection \<open>Python's \<^verbatim>\<open>round\<close> and \<^verbatim>\<open>random.uniform\<close>\<close>

text \<open>\<^verbatim>\<open>round(x)\<close> with one argument rounds to the nearest integer, a tie to the even one.\<close>

definition py_round :: "rat \<Rightarrow> int" where
  "py_round x =
     (let f = \<lfloor>x\<rfloor>; d = x - of_int f
      in if d < 1 / 2 then f
         else if 1 / 2 < d then f + 1
         else if even f then f else f + 1)"

text \<open>
  The global generator is a state: the sequence of values that \<^verbatim>\<open>random.random()\<close>
  will return, and how many were taken. \<^verbatim>\<open>random.uniform(a, b)\<close> is
  \<^verbatim>\<open>a + (b - a) * random()\<close>.
\<close>

type_synonym rng = "(nat \<Rightarrow> rat) \<times> nat"

definition random_uniform :: "rat \<Rightarrow> rat \<Rightarrow> rng \<Rightarrow> rat \<times> rng" where
  "random_uniform a b g = (a + (b - a) * fst g (snd g), (fst g, Suc (snd g)))"

section \<open>Section Locator: \<^verbatim>\<open>find_ieq_sections\<close>\<close>

text \<open>
  The dictionary \<^verbatim>\<open>{page_index: rect}\<close> is an association list in insertion order;
  \<^verbatim>\<open>sections[i] = rects[0]\<close> appends, since the page indices of \<^verbatim>\<open>enumerate\<close> are
  new keys. The function is written in state-passing form: each \<^verbatim>\<open>search_for\<close> is a
  read of the document, which is returned with the result.
\<close>

definition search_page :: "nat \<Rightarrow> string \<Rightarrow> document \<Rightarrow> rect list \<times> document" where
  "search_page i needle doc = (search_for (doc ! i) needle, doc)"

fun find_ieq_loop :: "nat list \<Rightarrow> (nat \<times> rect) list \<Rightarrow> document \<Rightarrow> (nat \<times> rect) list \<times> document" where
  "find_ieq_loop [] sections doc = (sections, doc)"
| "find_ieq_loop (i # is) sections doc =
     (let (rects, doc1) = search_page i ''Indoor Environmental Quality'' doc
      in if rects \<noteq> [] then find_ieq_loop is (sections @ [(i, hd rects)]) doc1
         else find_ieq_loop is sections doc1)"

definition find_ieq_sections_st :: "document \<Rightarrow> (nat \<times> rect) list \<times> document" where
  "find_ieq_sections_st doc = find_ieq_loop [0..<length doc] [] doc"

definition find_ieq_sections :: "document \<Rightarrow> (nat \<times> rect) list" where
  "find_ieq_sections doc = fst (find_ieq_sections_st doc)"

section \<open>Checkbox Marker: \<^verbatim>\<open>mark_yes_boxes_red\<close>\<close>

definition line_key :: "word \<Rightarrow> rat" where
  "line_key w = (let y_mid = (wy0 w + wy1 w) / 2 in of_int (py_round (y_mid * 2)) / 2)"

text \<open>\<^verbatim>\<open>line_buckets.setdefault(key, []).append(w)\<close> on a dictionary that keeps the
  order in which its keys were first inserted.\<close>

fun setdefault_append :: "rat \<Rightarrow> word \<Rightarrow> (rat \<times> word list) list \<Rightarrow> (rat \<times> word list) list" where
  "setdefault_append k w [] = [(k, [w])]"
| "setdefault_append k w ((k', ws) # bs) =
     (if k' = k then (k', ws @ [w]) # bs else (k', ws) # setdefault_append k w bs)"

definition line_buckets :: "word list \<Rightarrow> (rat \<times> word list) list" where
  "line_buckets ws = foldl (\<lambda>bs w. setdefault_append (line_key w) w bs) [] ws"

text \<open>The search for the nearest \<^verbatim>\<open>No\<close> to the right; \<^verbatim>\<open>min_dx\<close> starts at \<^verbatim>\<open>1e9\<close>.\<close>

definition right_no_step :: "word \<Rightarrow> word option \<times> rat \<Rightarrow> word \<Rightarrow> word option \<times> rat" where
  "right_no_step w acc ww =
     (if wtxt ww = ''No'' \<and> wx1 w < wx0 ww then
        (let dx = wx0 ww - wx1 w
         in if 30 \<le> dx \<and> dx \<le> 250 \<and> dx < snd acc then (Some ww, dx) else acc)
      else acc)"

definition find_right_no :: "word list \<Rightarrow> word \<Rightarrow> word option" where
  "find_right_no line_words w = fst (foldl (right_no_step w) (None, 10 ^ 9) line_words)"

definition left_neighbor_step :: "word \<Rightarrow> word option \<Rightarrow> word \<Rightarrow> word option" where
  "left_neighbor_step w left_neighbor ww =
     (if wx1 ww \<le> wx0 w \<and> wx0 w - wx1 ww < 25 then
        (case left_neighbor of
           None \<Rightarrow> Some ww
         | Some l \<Rightarrow> if wx1 l < wx1 ww then Some ww else Some l)
      else left_neighbor)"

definition find_left_neighbor :: "word list \<Rightarrow> word \<Rightarrow> word option" where
  "find_left_neighbor line_words w = foldl (left_neighbor_step w) None line_words"

definition isdigit :: "char \<Rightarrow> bool" where
  "isdigit ch = (ch \<in> set ''0123456789'')"

text \<open>\<^verbatim>\<open>any(ch.isdigit() for ch in t) or "%" in t\<close>\<close>

definition numeric_qualifier :: "string \<Rightarrow> bool" where
  "numeric_qualifier t = ((\<exists>ch \<in> set t. isdigit ch) \<or> CHR ''%'' \<in> set t)"

text \<open>The humanized X: four draws of the generator, in the order of the source, then
  the two \<^verbatim>\<open>draw_line\<close> calls.\<close>

definition draw_x :: "rat \<Rightarrow> rat \<Rightarrow> rat \<Rightarrow> word \<Rightarrow> page \<times> rng \<Rightarrow> page \<times> rng" where
  "draw_x x_offset box width w st =
     (let (u1, g1) = random_uniform (- 3 / 2) (3 / 2) (snd st);
          cx = wx0 w - (x_offset + u1);
          (u2, g2) = random_uniform (- 6 / 5) (6 / 5) g1;
          cy = wy0 w + (wy1 w - wy0 w) / 2 + u2;
          (u3, g3) = random_uniform (- 1) (6 / 5) g2;
          b = max (15 / 2) (box + u3);
          (u4, g4) = random_uniform (- 1 / 5) (1 / 4) g3;
          wline = max (9 / 10) (width + u4);
          page1 = draw_line (cx - b / 2, cy - b / 2) (cx + b / 2, cy + b / 2) red wline (fst st);
          page2 = draw_line (cx - b / 2, cy + b / 2) (cx + b / 2, cy - b / 2) red wline page1
      in (page2, g4))"

text \<open>The body of \<^verbatim>\<open>for w in yes_cands\<close>; every \<^verbatim>\<open>continue\<close> returns the state as it is.\<close>

definition mark_yes_word ::
  "rat \<Rightarrow> rat \<Rightarrow> rat \<Rightarrow> rat option \<Rightarrow> word list \<Rightarrow> bool \<Rightarrow> page \<times> rng \<Rightarrow> word \<Rightarrow> page \<times> rng" where
  "mark_yes_word x_offset box width y_threshold line_words has_no st w =
     (if (case y_threshold of None \<Rightarrow> False | Some t \<Rightarrow> t - 2 \<le> wy0 w) then st
      else if \<not> has_no then st
      else if find_right_no line_words w = None then st
      else if (case find_left_neighbor line_words w of
                 None \<Rightarrow> False
               | Some l \<Rightarrow> numeric_qualifier (wtxt l)) then st
      else draw_x x_offset box width w st)"

text \<open>The body of \<^verbatim>\<open>for key, line_words in line_buckets.items()\<close>.\<close>

definition mark_line ::
  "rat \<Rightarrow> rat \<Rightarrow> rat \<Rightarrow> rat option \<Rightarrow> page \<times> rng \<Rightarrow> word list \<Rightarrow> page \<times> rng" where
  "mark_line x_offset box width y_threshold st bucket =
     (let line_words = sort_key wx0 bucket;
          yes_cands = filter (\<lambda>w. wtxt w = ''Yes'') line_words;
          has_no = (\<exists>w \<in> set line_words. wtxt w = ''No'')
      in foldl (mark_yes_word x_offset box width y_threshold line_words has_no) st yes_cands)"

definition y_threshold_of :: "(nat \<times> rect) list \<Rightarrow> nat \<Rightarrow> rat option" where
  "y_threshold_of skip_after_y_by_page idx =
     (case map_of skip_after_y_by_page idx of
        None \<Rightarrow> None
      | Some r \<Rightarrow> if rect_bool r then Some (y0 r) else None)"

text \<open>The body of \<^verbatim>\<open>for idx, page in enumerate(doc)\<close>.\<close>

definition mark_page ::
  "rat \<Rightarrow> rat \<Rightarrow> rat \<Rightarrow> (nat \<times> rect) list \<Rightarrow> nat \<Rightarrow> page \<times> rng \<Rightarrow> page \<times> rng" where
  "mark_page x_offset box width skip_after_y_by_page idx st =
     (let ws = get_text_words (fst st)
      in if ws = [] then st
         else foldl (mark_line x_offset box width (y_threshold_of skip_after_y_by_page idx)) st
                (map snd (line_buckets ws)))"

fun mark_pages ::
  "rat \<Rightarrow> rat \<Rightarrow> rat \<Rightarrow> (nat \<times> rect) list \<Rightarrow> nat \<Rightarrow> page list \<Rightarrow> rng \<Rightarrow> page list \<times> rng" where
  "mark_pages x_offset box width skip idx [] g = ([], g)"
| "mark_pages x_offset box width skip idx (p # ps) g =
     (let (p', g1) = mark_page x_offset box width skip idx (p, g);
          (ps', g2) = mark_pages x_offset box width skip (Suc idx) ps g1
      in (p' # ps', g2))"

definition mark_yes_boxes_red ::
  "document \<Rightarrow> rat \<Rightarrow> rat \<Rightarrow> rat \<Rightarrow> (nat \<times> rect) list \<Rightarrow> rng \<Rightarrow> document \<times> rng" where
  "mark_yes_boxes_red doc x_offset box width skip_after_y_by_page g =
     mark_pages x_offset box width skip_after_y_by_page 0 doc g"


section \<open>Notes Filler: \<^verbatim>\<open>insert_ieq_notes_na\<close>\<close>

text \<open>The forward search \<^verbatim>\<open>for pi in range(start_page + 1, len(doc))\<close>, left by
  \<^verbatim>\<open>break\<close> at the first page with a hit (the index is called \<open>pn\<close> here). A target is the index of the page that the
  variable \<^verbatim>\<open>page\<close> then holds, and the rectangle.\<close>

fun search_forward :: "document \<Rightarrow> nat list \<Rightarrow> (nat \<times> rect) option" where
  "search_forward doc [] = None"
| "search_forward doc (pn # pns) =
     (case search_for (doc ! pn) ''Notes:'' of
        [] \<Rightarrow> search_forward doc pns
      | r # _ \<Rightarrow> Some (pn, r))"

text \<open>The body of \<^verbatim>\<open>for start_page, ieq_rect in sorted(ieq_sections.items())\<close>;
  \<^verbatim>\<open>doc[start_page]\<close> raises \<^verbatim>\<open>IndexError\<close> for an index that is no page.\<close>

definition notes_section :: "document \<Rightarrow> nat \<times> rect \<Rightarrow> error + document" where
  "notes_section doc sec =
     (case sec of (start_page, ieq_rect) \<Rightarrow>
        if \<not> start_page < length doc then Inl IndexError
        else
          let page = doc ! start_page;
              candidates = filter (\<lambda>r. y1 ieq_rect < y0 r) (search_for page ''Notes:'');
              target = (case candidates of [] \<Rightarrow> None | r # _ \<Rightarrow> Some (start_page, r));
              target = (case target of
                          None \<Rightarrow> search_forward doc [start_page + 1 ..< length doc]
                        | Some t \<Rightarrow> Some t)
          in (case target of
                None \<Rightarrow> Inr doc
              | Some (pn, t) \<Rightarrow>
                  Inr (doc[pn := insert_text (x1 t + 10, y1 t + 8) ''NA'' 11 ''helv'' red (doc ! pn)])))"

fun notes_loop :: "(nat \<times> rect) list \<Rightarrow> document \<Rightarrow> error + document" where
  "notes_loop [] doc = Inr doc"
| "notes_loop (sec # secs) doc =
     (case notes_section doc sec of Inl e \<Rightarrow> Inl e | Inr doc' \<Rightarrow> notes_loop secs doc')"

text \<open>The keys of a dictionary are distinct, so \<^verbatim>\<open>sorted(ieq_sections.items())\<close> orders
  the items by page index.\<close>

definition insert_ieq_notes_na :: "document \<Rightarrow> (nat \<times> rect) list \<Rightarrow> error + document" where
  "insert_ieq_notes_na doc ieq_sections = notes_loop (sort_key fst ieq_sections) doc"

section \<open>Signature Filler: \<^verbatim>\<open>find_signature_page\<close> and \<^verbatim>\<open>fill_signature_section_red\<close>\<close>

definition stamp_phrase :: string where
  "stamp_phrase = ''Signature & Stamp of Verifying Licensed Professional''"

text \<open>First loop: return at the first page with the phrase.\<close>

fun find_phrase_loop :: "nat list \<Rightarrow> document \<Rightarrow> nat option \<times> document" where
  "find_phrase_loop [] doc = (None, doc)"
| "find_phrase_loop (i # is) doc =
     (let (rects, doc1) = search_page i stamp_phrase doc
      in if rects \<noteq> [] then (Some i, doc1) else find_phrase_loop is doc1)"

text \<open>Second loop: the state is \<^verbatim>\<open>(best_gap, best)\<close>, starting at \<^verbatim>\<open>(1e9, None)\<close>.\<close>

definition gap_step :: "nat \<Rightarrow> rect \<Rightarrow> rat \<times> nat option \<Rightarrow> rect \<Rightarrow> rat \<times> nat option" where
  "gap_step i s acc d =
     (let gap = \<bar>y_center s - y_center d\<bar>
      in if gap < fst acc then (gap, Some i) else acc)"

definition page_gaps :: "nat \<Rightarrow> rect list \<Rightarrow> rect list \<Rightarrow> rat \<times> nat option \<Rightarrow> rat \<times> nat option" where
  "page_gaps i sigs dates acc = foldl (\<lambda>acc s. foldl (gap_step i s) acc dates) acc sigs"

fun nearest_loop :: "nat list \<Rightarrow> rat \<times> nat option \<Rightarrow> document \<Rightarrow> (rat \<times> nat option) \<times> document" where
  "nearest_loop [] acc doc = (acc, doc)"
| "nearest_loop (i # is) acc doc =
     (let (sigs, doc1) = search_page i ''Signature'' doc;
          (dates, doc2) = search_page i ''Date'' doc1
      in nearest_loop is (page_gaps i sigs dates acc) doc2)"

definition find_signature_page_st :: "document \<Rightarrow> nat \<times> document" where
  "find_signature_page_st doc =
     (case find_phrase_loop [0..<length doc] doc of
        (Some i, doc1) \<Rightarrow> (i, doc1)
      | (None, doc1) \<Rightarrow>
          (case nearest_loop [0..<length doc1] (10 ^ 9, None) doc1 of
             ((best_gap, best), doc2) \<Rightarrow>
               (case best of
                  Some b \<Rightarrow> (b, doc2)
                | None \<Rightarrow> (nat (max 0 (int (length doc2) - 2)), doc2))))"

definition find_signature_page :: "document \<Rightarrow> nat" where
  "find_signature_page doc = fst (find_signature_page_st doc)"

text \<open>\<^verbatim>\<open>text_width\<close>: the font metric of the PDF library is a parameter, \<open>None\<close> where
  the lookup raises; the fallback is \<^verbatim>\<open>len(txt) * fontsize * 0.5\<close>.\<close>

definition text_width :: "(string \<Rightarrow> rat \<Rightarrow> rat option) \<Rightarrow> string \<Rightarrow> rat \<Rightarrow> rat" where
  "text_width get_text_length txt fontsize =
     (case get_text_length txt fontsize of
        Some w \<Rightarrow> w
      | None \<Rightarrow> of_nat (length txt) * fontsize * (1 / 2))"

text \<open>\<^verbatim>\<open>for d in date_marks_para: if d.y0 >= ny - 5: chosen = d; break\<close>\<close>

fun choose_date :: "rat \<Rightarrow> rect list \<Rightarrow> rect option" where
  "choose_date ny [] = None"
| "choose_date ny (d # ds) = (if ny - 5 \<le> y0 d then Some d else choose_date ny ds)"

text \<open>The pairing loop; the state is \<^verbatim>\<open>(best_gap, best_pair)\<close>.\<close>

definition pair_step ::
  "rat \<Rightarrow> rect \<Rightarrow> rat \<times> (rect \<times> rect) option \<Rightarrow> rect \<Rightarrow> rat \<times> (rect \<times> rect) option" where
  "pair_step tol s acc d =
     (let gap = \<bar>y_center s - y_center d\<bar>
      in if gap \<le> tol \<and> gap < fst acc then (gap, Some (s, d)) else acc)"

text \<open>\<^verbatim>\<open>min(xs, key=f)\<close> on a list with first element \<open>m\<close>: the first element of least key.\<close>

fun min_by :: "('a \<Rightarrow> rat) \<Rightarrow> 'a \<Rightarrow> 'a list \<Rightarrow> 'a" where
  "min_by f m [] = m"
| "min_by f m (x # xs) = min_by f (if f x < f m then x else m) xs"

definition pair_labels :: "rat \<Rightarrow> rect list \<Rightarrow> rect list \<Rightarrow> (rect \<times> rect) option" where
  "pair_labels tol sig_rects date_rects =
     (let best_pair = snd (foldl (\<lambda>acc s. foldl (pair_step tol s) acc date_rects) (10 ^ 9, None) sig_rects)
      in if best_pair = None \<and> sig_rects \<noteq> [] \<and> date_rects \<noteq> [] then
           (let s = min_by y0 (hd sig_rects) (tl sig_rects);
                d = min_by (\<lambda>r. \<bar>y_center r - y_center s\<bar>) (hd date_rects) (tl date_rects)
            in Some (s, d))
         else best_pair)"

definition fill_signature_section_red ::
  "(string \<Rightarrow> rat \<Rightarrow> rat option) \<Rightarrow> document \<Rightarrow> string \<Rightarrow> string \<Rightarrow> rat \<Rightarrow> error + document" where
  "fill_signature_section_red get_text_length doc signer_name bottom_date tol =
     (let idx = find_signature_page doc
      in if \<not> idx < length doc then Inl IndexError
         else
           let page = doc ! idx;
               name_marks = search_for page ''(Name)'';
               date_marks_para = search_for page ''(Date)'';
               page1 = (case name_marks of
                          [] \<Rightarrow> page
                        | r # _ \<Rightarrow>
                            let w = text_width get_text_length signer_name 11
                            in insert_text (x0 r - 6 - w, y1 r - 2) signer_name 11 ''helv'' red page);
               page2 = (case date_marks_para of
                          [] \<Rightarrow> page1
                        | d0 # _ \<Rightarrow>
                            let chosen = (case name_marks of
                                            [] \<Rightarrow> None
                                          | nm # _ \<Rightarrow> choose_date (y0 nm) date_marks_para);
                                chosen = (case chosen of None \<Rightarrow> d0 | Some d \<Rightarrow> d);
                                w = text_width get_text_length ''NA'' 11
                            in insert_text (x0 chosen - 6 - w, y1 chosen - 2) ''NA'' 11 ''helv'' red page1);
               sig_rects = search_for page2 ''Signature'';
               date_rects = search_for page2 ''Date'';
               page3 = (case pair_labels tol sig_rects date_rects of
                          None \<Rightarrow> page2
                        | Some (s, d) \<Rightarrow>
                            insert_text (x1 d + 12, y1 d - 2) bottom_date 12 ''helv'' red
                              (insert_text (x1 s + 12, y1 s - 2) signer_name 16 ''helv'' red page2))
           in Inr (doc[idx := page3]))"

section \<open>Notions used to state the properties\<close>

subsection \<open>What the marker draws\<close>

text \<open>
  The four jitter values the next X takes from the generator, the two segments of an X
  drawn for a word with given jitter, and the drawings of a list of words marked one after
  the other (each takes four values of the generator).
\<close>

definition jitter :: "rng \<Rightarrow> rat \<times> rat \<times> rat \<times> rat" where
  "jitter g =
     (- 3 / 2 + 3 * fst g (snd g),
      - 6 / 5 + 12 / 5 * fst g (snd g + 1),
      - 1 + 11 / 5 * fst g (snd g + 2),
      - 1 / 5 + 9 / 20 * fst g (snd g + 3))"

definition x_lines :: "rat \<Rightarrow> rat \<Rightarrow> rat \<Rightarrow> word \<Rightarrow> rat \<times> rat \<times> rat \<times> rat \<Rightarrow> drawing list" where
  "x_lines x_offset box width w u =
     (case u of (u1, u2, u3, u4) \<Rightarrow>
        let cx = wx0 w - (x_offset + u1);
            cy = wy0 w + (wy1 w - wy0 w) / 2 + u2;
            b = max (15 / 2) (box + u3);
            wline = max (9 / 10) (width + u4)
        in [Line (cx - b / 2, cy - b / 2) (cx + b / 2, cy + b / 2) red wline,
            Line (cx - b / 2, cy + b / 2) (cx + b / 2, cy - b / 2) red wline])"

fun x_marks :: "rat \<Rightarrow> rat \<Rightarrow> rat \<Rightarrow> rng \<Rightarrow> word list \<Rightarrow> drawing list" where
  "x_marks x_offset box width g [] = []"
| "x_marks x_offset box width g (w # ws) =
     x_lines x_offset box width w (jitter g) @ x_marks x_offset box width (fst g, snd g + 4) ws"

text \<open>The words of the page on the visual line of \<open>w\<close>.\<close>

definition same_line :: "word list \<Rightarrow> word \<Rightarrow> word list" where
  "same_line ws w = filter (\<lambda>m. line_key m = line_key w) ws"




text \<open>The test that the loop body makes before it draws, and the words a line and a page
  are marked for, in the order of the loops.\<close>

definition qualifies :: "rat option \<Rightarrow> word list \<Rightarrow> word \<Rightarrow> bool" where
  "qualifies y_threshold line_words w =
     (\<not> (case y_threshold of None \<Rightarrow> False | Some t \<Rightarrow> t - 2 \<le> wy0 w)
      \<and> (\<exists>n \<in> set line_words. wtxt n = ''No'')
      \<and> find_right_no line_words w \<noteq> None
      \<and> \<not> (case find_left_neighbor line_words w of
               None \<Rightarrow> False
             | Some l \<Rightarrow> numeric_qualifier (wtxt l)))"

definition line_targets :: "rat option \<Rightarrow> word list \<Rightarrow> word list" where
  "line_targets y_threshold bucket =
     (let line_words = sort_key wx0 bucket
      in filter (\<lambda>w. wtxt w = ''Yes'' \<and> qualifies y_threshold line_words w) line_words)"

definition marked_words :: "rat option \<Rightarrow> word list \<Rightarrow> word list" where
  "marked_words y_threshold ws = concat (map (line_targets y_threshold \<circ> snd) (line_buckets ws))"

subsection \<open>The target and the stamp of the Notes Filler\<close>

text \<open>The target of the Notes Filler for a heading rectangle \<open>r\<close> on page \<open>i\<close>, in the
  words of the specification: the first \<^verbatim>\<open>Notes:\<close> hit of the page whose top is below the
  bottom of the heading; else the first hit of the first later page that has one. And the
  stamp: \<^verbatim>\<open>NA\<close> in red, 10 units right of the right edge and 8 below the bottom edge.\<close>

definition notes_target :: "document \<Rightarrow> nat \<Rightarrow> rect \<Rightarrow> (nat \<times> rect) option" where
  "notes_target doc i r =
     (case find (\<lambda>t. y1 r < y0 t) (search_for (doc ! i) ''Notes:'') of
        Some t \<Rightarrow> Some (i, t)
      | None \<Rightarrow>
          (case find (\<lambda>j. search_for (doc ! j) ''Notes:'' \<noteq> []) [i + 1 ..< length doc] of
             Some j \<Rightarrow> Some (j, hd (search_for (doc ! j) ''Notes:''))
           | None \<Rightarrow> None))"

definition stamp_na :: "document \<Rightarrow> (nat \<times> rect) option \<Rightarrow> document" where
  "stamp_na doc target =
     (case target of
        None \<Rightarrow> doc
      | Some (j, t) \<Rightarrow>
          doc[j := (doc ! j)\<lparr>contents := contents (doc ! j)
                  @ [Text (x1 t + 10, y1 t + 8) ''NA'' 11 ''helv'' red]\<rparr>])"

text \<open>Stamping changes neither the number of pages nor what a search finds.\<close>

definition same_text :: "document \<Rightarrow> document \<Rightarrow> bool" where
  "same_text d doc = (length d = length doc \<and> (\<forall>j < length doc. search_for (d ! j) = search_for (doc ! j)))"

subsection \<open>Pairs of labels and inserted texts of the Signature Filler\<close>

text \<open>The update of a running strict minimum, as both pairing loops make it.\<close>

definition min_step :: "('x \<Rightarrow> rat) \<Rightarrow> ('x \<Rightarrow> bool) \<Rightarrow> ('x \<Rightarrow> 'v) \<Rightarrow> rat \<times> 'v option \<Rightarrow> 'x \<Rightarrow> rat \<times> 'v option" where
  "min_step key ok v acc x = (if ok x \<and> key x < fst acc then (key x, Some (v x)) else acc)"

text \<open>Vertical-centre distance of two labels, the distances of all \<^verbatim>\<open>Signature\<close>/\<^verbatim>\<open>Date\<close>
  pairs of a page, and whether a page has the stamp phrase.\<close>

definition label_gap :: "rect \<Rightarrow> rect \<Rightarrow> rat" where
  "label_gap s d = \<bar>y_center s - y_center d\<bar>"

definition pair_gaps :: "document \<Rightarrow> nat \<Rightarrow> rat list" where
  "pair_gaps doc i =
     map (\<lambda>(s, d). label_gap s d)
       (List.product (search_for (doc ! i) ''Signature'') (search_for (doc ! i) ''Date''))"

definition has_phrase :: "document \<Rightarrow> nat \<Rightarrow> bool" where
  "has_phrase doc i = (search_for (doc ! i) stamp_phrase \<noteq> [])"

definition page_pairs :: "document \<Rightarrow> nat list \<Rightarrow> (nat \<times> rat) list" where
  "page_pairs doc is = concat (map (\<lambda>i. map (Pair i) (pair_gaps doc i)) is)"

text \<open>What the Signature Filler inserts on the selected page: the signer name before the
  first \<^verbatim>\<open>(Name)\<close> token; \<^verbatim>\<open>NA\<close> before the chosen \<^verbatim>\<open>(Date)\<close> token, which is the first
  one whose top is at most 5 units above the top of the first \<^verbatim>\<open>(Name)\<close> token, and the
  first one of all when there is no such token or no \<^verbatim>\<open>(Name)\<close>; name and date right of
  the paired labels.\<close>

definition name_texts :: "(string \<Rightarrow> rat \<Rightarrow> rat option) \<Rightarrow> page \<Rightarrow> string \<Rightarrow> drawing list" where
  "name_texts get_text_length pg signer_name =
     (case search_for pg ''(Name)'' of
        [] \<Rightarrow> []
      | r # _ \<Rightarrow> [Text (x0 r - 6 - text_width get_text_length signer_name 11, y1 r - 2)
                   signer_name 11 ''helv'' red])"

definition chosen_date :: "page \<Rightarrow> rect option" where
  "chosen_date pg =
     (case search_for pg ''(Date)'' of
        [] \<Rightarrow> None
      | d0 # ds \<Rightarrow>
          Some (case search_for pg ''(Name)'' of
                  [] \<Rightarrow> d0
                | nm # _ \<Rightarrow>
                    (case find (\<lambda>d. y0 nm - 5 \<le> y0 d) (d0 # ds) of Some d \<Rightarrow> d | None \<Rightarrow> d0)))"

definition na_texts :: "(string \<Rightarrow> rat \<Rightarrow> rat option) \<Rightarrow> page \<Rightarrow> drawing list" where
  "na_texts get_text_length pg =
     (case chosen_date pg of
        None \<Rightarrow> []
      | Some c \<Rightarrow> [Text (x0 c - 6 - text_width get_text_length ''NA'' 11, y1 c - 2)
                    ''NA'' 11 ''helv'' red])"

definition label_texts :: "string \<Rightarrow> string \<Rightarrow> (rect \<times> rect) option \<Rightarrow> drawing list" where
  "label_texts signer_name bottom_date pair =
     (case pair of
        None \<Rightarrow> []
      | Some (s, d) \<Rightarrow>
          [Text (x1 s + 12, y1 s - 2) signer_name 16 ''helv'' red,
           Text (x1 d + 12, y1 d - 2) bottom_date 12 ''helv'' red])"

section \<open>Scenario documents\<close>

text \<open>The end-to-end scenario of the checklist: one page, \<^verbatim>\<open>Yes\<close> and \<^verbatim>\<open>No\<close> on one
  line, no heading anywhere.\<close>

definition scenario_yes :: word where
  "scenario_yes = \<lparr>wx0 = 100, wy0 = 200, wx1 = 130, wy1 = 212, wtxt = ''Yes''\<rparr>"
definition scenario_no :: word where
  "scenario_no = \<lparr>wx0 = 180, wy0 = 200, wx1 = 210, wy1 = 212, wtxt = ''No''\<rparr>"
definition scenario_page :: page where
  "scenario_page = \<lparr>get_text_words = [scenario_yes, scenario_no], search_for = (\<lambda>_. []), contents = []\<rparr>"



definition percent_word :: word where
  "percent_word = \<lparr>wx0 = 60, wy0 = 200, wx1 = 95, wy1 = 212, wtxt = ''100%''\<rparr>"

text \<open>A document whose heading on the first page has its only later \<^verbatim>\<open>Notes:\<close> on the
  second page.\<close>

definition ieq_heading :: rect where
  "ieq_heading = \<lparr>x0 = 40, y0 = 300, x1 = 220, y1 = 315\<rparr>"
definition notes_above :: rect where
  "notes_above = \<lparr>x0 = 50, y0 = 100, x1 = 90, y1 = 112\<rparr>"
definition notes_next :: rect where
  "notes_next = \<lparr>x0 = 50, y0 = 80, x1 = 90, y1 = 92\<rparr>"
definition notes_doc :: document where
  "notes_doc =
     [\<lparr>get_text_words = [],
       search_for = (\<lambda>s. if s = ''Indoor Environmental Quality'' then [ieq_heading]
                          else if s = ''Notes:'' then [notes_above] else []),
       contents = []\<rparr>,
      \<lparr>get_text_words = [],
       search_for = (\<lambda>s. if s = ''Notes:'' then [notes_next] else []),
       contents = []\<rparr>]"





section \<open>Properties of the Checkbox Marker\<close>

subsection \<open>Line buckets\<close>

lemma setdefault_append_keys:
  "map fst (setdefault_append k w bs) = (if k \<in> fst ` set bs then map fst bs else map fst bs @ [k])"
proof (induction bs)
  case Nil
  show ?case by simp
next
  case (Cons kb bs)
  obtain k' ws where kb: "kb = (k', ws)" by (cases kb)
  show ?case
  proof (cases "k' = k")
    case True
    then show ?thesis by (simp add: kb)
  next
    case False
    then show ?thesis using Cons.IH by (auto simp: kb)
  qed
qed

lemma setdefault_append_map_of:
  "map_of (setdefault_append k w bs) k' =
     (if k' = k then Some ((case map_of bs k of None \<Rightarrow> [] | Some l \<Rightarrow> l) @ [w]) else map_of bs k')"
  by (induction bs) auto

lemma line_buckets_snoc:
  "line_buckets (ws @ [w]) = setdefault_append (line_key w) w (line_buckets ws)"
  by (simp add: line_buckets_def)

lemma line_buckets_distinct: "distinct (map fst (line_buckets ws))"
proof (induction ws rule: rev_induct)
  case Nil
  show ?case by (simp add: line_buckets_def)
next
  case (snoc w ws)
  then show ?case by (simp add: line_buckets_snoc setdefault_append_keys)
qed

lemma line_buckets_map_of:
  "map_of (line_buckets ws) k =
     (if \<exists>w \<in> set ws. line_key w = k then Some (filter (\<lambda>w. line_key w = k) ws) else None)"
proof (induction ws arbitrary: k rule: rev_induct)
  case Nil
  show ?case by (simp add: line_buckets_def)
next
  case (snoc w ws)
  show ?case
  proof (cases "k = line_key w")
    case True
    then show ?thesis
      by (simp add: line_buckets_snoc setdefault_append_map_of snoc.IH filter_empty_conv)
  next
    case False
    then show ?thesis
      by (auto simp: line_buckets_snoc setdefault_append_map_of snoc.IH)
  qed
qed

lemma line_buckets_bucket:
  assumes "(k, b) \<in> set (line_buckets ws)"
  shows "b = filter (\<lambda>w. line_key w = k) ws" and "b \<noteq> []"
proof -
  from assms have "map_of (line_buckets ws) k = Some b"
    using line_buckets_distinct [of ws] by simp
  then have *: "(\<exists>w \<in> set ws. line_key w = k) \<and> b = filter (\<lambda>w. line_key w = k) ws"
    unfolding line_buckets_map_of by (auto split: if_splits)
  then show "b = filter (\<lambda>w. line_key w = k) ws" by simp
  from * show "b \<noteq> []" by (auto simp: filter_empty_conv)
qed

lemma bucket_same_line:
  assumes "(k, b) \<in> set (line_buckets ws)" and "w \<in> set b"
  shows "set (sort_key wx0 b) = set (same_line ws w)" and "w \<in> set ws"
proof -
  from line_buckets_bucket(1) [OF assms(1)] have b: "b = filter (\<lambda>w. line_key w = k) ws" .
  with assms(2) have "line_key w = k" and "w \<in> set ws" by auto
  then show "set (sort_key wx0 b) = set (same_line ws w)" and "w \<in> set ws"
    using b by (simp_all add: same_line_def)
qed

subsection \<open>The two neighbour searches\<close>






subsection \<open>The loops draw for exactly the qualifying words\<close>

lemma draw_x_eq:
  "draw_x xo bx wd w (pg, g) =
     (pg\<lparr>contents := contents pg @ x_lines xo bx wd w (jitter g)\<rparr>, (fst g, snd g + 4))"
  by (simp add: draw_x_def random_uniform_def jitter_def x_lines_def draw_line_def Let_def
      eval_nat_numeral)

lemma draw_fold:
  "foldl (\<lambda>st w. draw_x xo bx wd w st) (pg, g) ws =
     (pg\<lparr>contents := contents pg @ x_marks xo bx wd g ws\<rparr>, (fst g, snd g + 4 * length ws))"
proof (induction ws arbitrary: pg g)
  case Nil
  show ?case by simp
next
  case (Cons w ws)
  show ?case by (simp add: draw_x_eq Cons.IH)
qed

lemma mark_yes_word_eq:
  "mark_yes_word xo bx wd thr lw (\<exists>n \<in> set lw. wtxt n = ''No'') st w =
     (if qualifies thr lw w then draw_x xo bx wd w st else st)"
  by (auto simp: mark_yes_word_def qualifies_def)

lemma foldl_cond:
  "foldl (\<lambda>st w. if Q w then f w st else st) st ws = foldl (\<lambda>st w. f w st) st (filter Q ws)"
  by (induction ws arbitrary: st) simp_all

lemma mark_line_eq:
  "mark_line xo bx wd thr st b = foldl (\<lambda>st w. draw_x xo bx wd w st) st (line_targets thr b)"
proof -
  let ?lw = "sort_key wx0 b"
  have "mark_line xo bx wd thr st b =
      foldl (\<lambda>st w. if qualifies thr ?lw w then draw_x xo bx wd w st else st) st
        (filter (\<lambda>w. wtxt w = ''Yes'') ?lw)"
    unfolding mark_line_def Let_def mark_yes_word_eq ..
  also have "\<dots> = foldl (\<lambda>st w. draw_x xo bx wd w st) st
      (filter (qualifies thr ?lw) (filter (\<lambda>w. wtxt w = ''Yes'') ?lw))"
    by (rule foldl_cond)
  also have "filter (qualifies thr ?lw) (filter (\<lambda>w. wtxt w = ''Yes'') ?lw) = line_targets thr b"
    by (simp add: line_targets_def Let_def conj_commute)
  finally show ?thesis .
qed

lemma foldl_lines:
  "foldl (\<lambda>st b. foldl f st (h b)) st bs = foldl f st (concat (map h bs))"
  by (induction bs arbitrary: st) simp_all

lemma mark_page_eq:
  "mark_page xo bx wd skip idx (pg, g) =
     (let targets = marked_words (y_threshold_of skip idx) (get_text_words pg)
      in (pg\<lparr>contents := contents pg @ x_marks xo bx wd g targets\<rparr>,
          (fst g, snd g + 4 * length targets)))"
proof (cases "get_text_words pg = []")
  case True
  then show ?thesis
    by (simp add: mark_page_def marked_words_def line_buckets_def)
next
  case False
  let ?thr = "y_threshold_of skip idx"
  have "mark_page xo bx wd skip idx (pg, g) =
      foldl (\<lambda>st b. foldl (\<lambda>st w. draw_x xo bx wd w st) st (line_targets ?thr b)) (pg, g)
        (map snd (line_buckets (get_text_words pg)))"
    using False by (simp add: mark_page_def mark_line_eq [abs_def])
  also have "\<dots> = foldl (\<lambda>st w. draw_x xo bx wd w st) (pg, g)
      (marked_words ?thr (get_text_words pg))"
    by (simp add: foldl_lines marked_words_def)
  finally show ?thesis by (simp add: draw_fold Let_def)
qed













lemma line_key_midpoint:
  "wy0 w + wy1 w = of_int k \<Longrightarrow> line_key w = of_int k / 2"
  by (simp add: line_key_def py_round_def Let_def)




lemma scenario_keys:
  "line_key scenario_yes = 206" "line_key scenario_no = 206" "line_key percent_word = 206"
  using line_key_midpoint [of scenario_yes 412] line_key_midpoint [of scenario_no 412]
    line_key_midpoint [of percent_word 412]
  by (simp_all add: scenario_yes_def scenario_no_def percent_word_def)


section \<open>The queries\<close>

lemma find_ieq_loop_frame: "snd (find_ieq_loop is sections doc) = doc"
  by (induction "is" arbitrary: sections) (simp_all add: search_page_def)

lemma find_phrase_loop_frame: "snd (find_phrase_loop is doc) = doc"
  by (induction "is") (simp_all add: search_page_def)

lemma nearest_loop_frame: "snd (nearest_loop is acc doc) = doc"
  by (induction "is" arbitrary: acc) (simp_all add: search_page_def)

lemma find_phrase_loop_frameD: "find_phrase_loop is doc = (a, d) \<Longrightarrow> d = doc"
  using find_phrase_loop_frame [of "is" doc] by simp

lemma nearest_loop_frameD: "nearest_loop is acc doc = (r, d) \<Longrightarrow> d = doc"
  using nearest_loop_frame [of "is" acc doc] by simp

lemma find_signature_page_st_frame: "snd (find_signature_page_st doc) = doc"
  by (auto simp: find_signature_page_st_def split: option.splits prod.splits
      dest!: find_phrase_loop_frameD nearest_loop_frameD)

text \<open>
  Claim C10. \<^verbatim>\<open>find_ieq_sections\<close> and \<^verbatim>\<open>find_signature_page\<close> only search: the
  document they return with their result is the document they were given, and so it is
  after any number of runs.
\<close>

theorem queries_leave_document_unchanged:
  "snd (find_ieq_sections_st doc) = doc \<and> snd (find_signature_page_st doc) = doc
   \<and> ((\<lambda>d. snd (find_ieq_sections_st d)) ^^ m) doc = doc
   \<and> ((\<lambda>d. snd (find_signature_page_st d)) ^^ n) doc = doc"
proof -
  have 1: "snd (find_ieq_sections_st d) = d" for d
    by (simp add: find_ieq_sections_st_def find_ieq_loop_frame)
  have 3: "((\<lambda>d. snd (find_ieq_sections_st d)) ^^ m) doc = doc"
    by (induction m) (simp_all add: 1)
  have 4: "((\<lambda>d. snd (find_signature_page_st d)) ^^ n) doc = doc"
    by (induction n) (simp_all add: find_signature_page_st_frame)
  from 1 3 4 show ?thesis by (simp add: find_signature_page_st_frame)
qed

lemma find_ieq_loop_eq:
  "fst (find_ieq_loop is sections doc) =
     sections @ map (\<lambda>i. (i, hd (search_for (doc ! i) ''Indoor Environmental Quality'')))
       (filter (\<lambda>i. search_for (doc ! i) ''Indoor Environmental Quality'' \<noteq> []) is)"
  by (induction "is" arbitrary: sections) (simp_all add: search_page_def)

lemma find_ieq_sections_eq:
  "find_ieq_sections doc =
     map (\<lambda>i. (i, hd (search_for (doc ! i) ''Indoor Environmental Quality'')))
       (filter (\<lambda>i. search_for (doc ! i) ''Indoor Environmental Quality'' \<noteq> []) [0..<length doc])"
  by (simp add: find_ieq_sections_def find_ieq_sections_st_def find_ieq_loop_eq)

lemma find_ieq_sections_keys:
  "(i, r) \<in> set (find_ieq_sections doc) \<Longrightarrow> i < length doc"
  by (auto simp: find_ieq_sections_eq)

section \<open>Properties of the Notes Filler\<close>

lemma find_as_filter:
  "(case filter P xs of [] \<Rightarrow> None | x # _ \<Rightarrow> Some (f x)) = map_option f (find P xs)"
  by (induction xs) simp_all

lemma search_forward_eq:
  "search_forward doc pns =
     (case find (\<lambda>j. search_for (doc ! j) ''Notes:'' \<noteq> []) pns of
        Some j \<Rightarrow> Some (j, hd (search_for (doc ! j) ''Notes:''))
      | None \<Rightarrow> None)"
  by (induction pns) (simp_all split: list.split)

lemma notes_section_eq:
  assumes "i < length doc"
  shows "notes_section doc (i, r) = Inr (stamp_na doc (notes_target doc i r))"
proof -
  have "(case filter (\<lambda>t. y1 r < y0 t) (search_for (doc ! i) ''Notes:'') of
           [] \<Rightarrow> None | t # _ \<Rightarrow> Some (i, t))
        = map_option (\<lambda>t. (i, t)) (find (\<lambda>t. y1 r < y0 t) (search_for (doc ! i) ''Notes:''))"
    by (rule find_as_filter)
  then show ?thesis
    using assms
    by (simp add: notes_section_def notes_target_def stamp_na_def insert_text_def
        search_forward_eq Let_def split: option.split)
qed

lemma stamp_na_search:
  "j < length d \<Longrightarrow> search_for (stamp_na d t ! j) = search_for (d ! j)"
proof (cases t)
  case None
  then show ?thesis by (simp add: stamp_na_def)
next
  case (Some jt)
  assume j: "j < length d"
  obtain a b where jt: "jt = (a, b)" by (cases jt)
  show ?thesis
  proof (cases "a = j")
    case True
    with j show ?thesis by (simp add: stamp_na_def Some jt)
  next
    case False
    then show ?thesis by (simp add: stamp_na_def Some jt)
  qed
qed

lemma stamp_na_length: "length (stamp_na d t) = length d"
  by (simp add: stamp_na_def split: option.split)

lemma same_text_stamp: "same_text d doc \<Longrightarrow> same_text (stamp_na d t) doc"
  by (simp add: same_text_def stamp_na_length stamp_na_search)

lemma same_text_target:
  assumes "same_text d doc" and "i < length doc"
  shows "notes_target d i r = notes_target doc i r"
proof -
  have "find (\<lambda>j. search_for (d ! j) ''Notes:'' \<noteq> []) [i + 1 ..< length d]
      = find (\<lambda>j. search_for (doc ! j) ''Notes:'' \<noteq> []) [i + 1 ..< length doc]"
    using assms(1) by (intro find_cong) (auto simp: same_text_def)
  moreover have "hd (search_for (d ! j) ''Notes:'') = hd (search_for (doc ! j) ''Notes:'')"
    if "find (\<lambda>j. search_for (doc ! j) ''Notes:'' \<noteq> []) [i + 1 ..< length doc] = Some j" for j
  proof -
    from that have "j \<in> set [i + 1 ..< length doc]" by (auto simp: find_Some_iff)
    with assms(1) show ?thesis by (simp add: same_text_def)
  qed
  ultimately show ?thesis
    using assms by (auto simp: notes_target_def same_text_def split: option.split)
qed

lemma notes_loop_eq:
  assumes "same_text d doc" and "\<forall>(i, r) \<in> set secs. i < length doc"
  shows "notes_loop secs d = Inr (foldl (\<lambda>d (i, r). stamp_na d (notes_target doc i r)) d secs)"
  using assms
proof (induction secs arbitrary: d)
  case Nil
  show ?case by simp
next
  case (Cons sec secs)
  obtain i r where sec: "sec = (i, r)" by (cases sec)
  with Cons.prems have i: "i < length doc" "i < length d" by (simp_all add: same_text_def)
  have step: "notes_section d sec = Inr (stamp_na d (notes_target doc i r))"
    using notes_section_eq [OF i(2)] same_text_target [OF Cons.prems(1) i(1)] by (simp add: sec)
  have "same_text (stamp_na d (notes_target doc i r)) doc"
    using Cons.prems(1) by (rule same_text_stamp)
  from Cons.IH [OF this] Cons.prems(2) step show ?case by (simp add: sec)
qed

text \<open>
  Claim C5. For boundaries that lie on pages of the document (as every recorded boundary
  does), the Notes Filler raises nothing and handles the boundaries in the order of their
  page index; for each it stamps \<^verbatim>\<open>NA\<close>, in red, 10 units right of the right edge and 8
  units below the bottom edge of its target: the first \<^verbatim>\<open>Notes:\<close> hit of the same
  page whose top is below the bottom of the heading, else the first hit of the first
  later page with a hit. Without a target it inserts nothing.
\<close>

theorem notes_filler_stamps_first_notes_after_heading:
  assumes "\<forall>(i, r) \<in> set ieq_sections. i < length doc"
  shows "insert_ieq_notes_na doc ieq_sections =
      Inr (foldl (\<lambda>d (i, r). stamp_na d (notes_target doc i r)) doc (sort_key fst ieq_sections))
    \<and> ((\<forall>(i, r) \<in> set ieq_sections. notes_target doc i r = None) \<longrightarrow>
         insert_ieq_notes_na doc ieq_sections = Inr doc)"
proof -
  have "same_text doc doc" by (simp add: same_text_def)
  moreover from assms have "\<forall>(i, r) \<in> set (sort_key fst ieq_sections). i < length doc" by simp
  ultimately have 1: "insert_ieq_notes_na doc ieq_sections =
      Inr (foldl (\<lambda>d (i, r). stamp_na d (notes_target doc i r)) doc (sort_key fst ieq_sections))"
    unfolding insert_ieq_notes_na_def by (rule notes_loop_eq)
  have 2: "foldl (\<lambda>d (i, r). stamp_na d (notes_target doc i r)) d secs = d"
    if "\<forall>(i, r) \<in> set secs. notes_target doc i r = None" for d secs
    using that by (induction secs arbitrary: d) (auto simp: stamp_na_def)
  have "foldl (\<lambda>d (i, r). stamp_na d (notes_target doc i r)) doc (sort_key fst ieq_sections) = doc"
    if "\<forall>(i, r) \<in> set ieq_sections. notes_target doc i r = None"
    using that by (intro 2) simp
  with 1 show ?thesis by simp
qed

lemma notes_doc_sections: "find_ieq_sections notes_doc = [(0, ieq_heading)]"
  by (simp add: find_ieq_sections_eq notes_doc_def upt_rec)

lemma notes_doc_target: "notes_target notes_doc 0 ieq_heading = Some (1, notes_next)"
  by (simp add: notes_target_def notes_doc_def ieq_heading_def notes_above_def upt_rec)

theorem notes_filler_stamps_first_notes_after_heading_witness:
  "find_ieq_sections notes_doc = [(0, ieq_heading)] \<and> 0 < length notes_doc
   \<and> (\<exists>doc'. insert_ieq_notes_na notes_doc (find_ieq_sections notes_doc) = Inr doc'
        \<and> map contents doc' = [[], [Text (100, 100) ''NA'' 11 ''helv'' red]])"
proof -
  have h: "\<forall>(i, r) \<in> set (find_ieq_sections notes_doc). i < length notes_doc"
    by (simp add: notes_doc_sections) (simp add: notes_doc_def)
  from notes_filler_stamps_first_notes_after_heading [OF h]
  have "insert_ieq_notes_na notes_doc (find_ieq_sections notes_doc) =
      Inr (stamp_na notes_doc (Some (1, notes_next)))"
    by (simp add: notes_doc_sections notes_doc_target)
  moreover have "map contents (stamp_na notes_doc (Some (1, notes_next))) =
      [[], [Text (100, 100) ''NA'' 11 ''helv'' red]]"
    by (simp add: stamp_na_def notes_doc_def notes_next_def)
  moreover have "0 < length notes_doc" by (simp add: notes_doc_def)
  ultimately show ?thesis by (simp add: notes_doc_sections)
qed

section \<open>The end-to-end scenario\<close>

lemma scenario_marked: "marked_words None [scenario_yes, scenario_no] = [scenario_yes]"
proof -
  have b: "line_buckets [scenario_yes, scenario_no] = [(206, [scenario_yes, scenario_no])]"
    by (simp add: line_buckets_def scenario_keys)
  have s: "wx0 scenario_yes \<le> wx0 scenario_no"
    by (simp add: scenario_yes_def scenario_no_def)
  have r: "find_right_no [scenario_yes, scenario_no] scenario_yes = Some scenario_no"
    by (simp add: find_right_no_def right_no_step_def scenario_yes_def scenario_no_def)
  have l: "find_left_neighbor [scenario_yes, scenario_no] scenario_yes = None"
    by (simp add: find_left_neighbor_def left_neighbor_step_def scenario_yes_def scenario_no_def)
  have q: "qualifies None [scenario_yes, scenario_no] scenario_yes"
    by (simp add: qualifies_def r l) (simp add: scenario_no_def)
  have t: "wtxt scenario_yes = ''Yes''" "wtxt scenario_no \<noteq> ''Yes''"
    by (simp_all add: scenario_yes_def scenario_no_def)
  show ?thesis
    by (simp add: marked_words_def b line_targets_def s q t)
qed

text \<open>
  Claim C9. On the one-page document with \<^verbatim>\<open>Yes\<close> at (100,200)-(130,212) and \<^verbatim>\<open>No\<close> at
  (180,200)-(210,212) and no heading, for every sequence of random values in the unit
  interval the Checkbox Marker adds exactly two red segments, the diagonals of a square
  with centre \<open>(cx, cy)\<close>, \<open>89.5 \<le> cx \<le> 92.5\<close> and \<open>204.8 \<le> cy \<le> 207.2\<close>; no
  boundary is recorded, and the Notes Filler leaves every document as it is.
\<close>

theorem scenario_one_x_and_no_notes:
  assumes "get_text_words pg = [scenario_yes, scenario_no]"
    and "search_for pg ''Indoor Environmental Quality'' = []"
    and "\<forall>k. 0 \<le> f k \<and> f k \<le> 1"
  shows "find_ieq_sections [pg] = []
    \<and> (\<exists>cx cy h wl. 0 < h \<and> 179 / 2 \<le> cx \<and> cx \<le> 185 / 2 \<and> 1024 / 5 \<le> cy \<and> cy \<le> 1036 / 5
          \<and> fst (mark_yes_boxes_red [pg] 9 10 (6 / 5) (find_ieq_sections [pg]) (f, k0)) =
              [pg\<lparr>contents := contents pg
                 @ [Line (cx - h, cy - h) (cx + h, cy + h) red wl,
                    Line (cx - h, cy + h) (cx + h, cy - h) red wl]\<rparr>])
    \<and> (\<forall>doc'. insert_ieq_notes_na doc' (find_ieq_sections [pg]) = Inr doc')"
proof -
  have sec: "find_ieq_sections [pg] = []"
    using assms(2) by (simp add: find_ieq_sections_eq)
  have nofill: "insert_ieq_notes_na doc' [] = Inr doc'" for doc'
    by (simp add: insert_ieq_notes_na_def)
  define u1 where "u1 = - 3 / 2 + 3 * f k0"
  define u2 where "u2 = - 6 / 5 + 12 / 5 * f (k0 + 1)"
  define u3 where "u3 = - 1 + 11 / 5 * f (k0 + 2)"
  define u4 where "u4 = - 1 / 5 + 9 / 20 * f (k0 + 3)"
  define cx where "cx = 100 - (9 + u1)"
  define cy where "cy = 200 + (212 - 200) / 2 + u2"
  define h where "h = max (15 / 2) (10 + u3) / 2"
  define wl where "wl = max (9 / 10) (6 / 5 + u4)"
  from assms(3) have "0 \<le> f k0" "f k0 \<le> 1" "0 \<le> f (k0 + 1)" "f (k0 + 1) \<le> 1" by simp_all
  then have bounds: "179 / 2 \<le> cx" "cx \<le> 185 / 2" "1024 / 5 \<le> cy" "cy \<le> 1036 / 5"
    by (simp_all add: cx_def cy_def u1_def u2_def)
  have h: "0 < h" by (simp add: h_def)
  have "mark_page 9 10 (6 / 5) [] 0 (pg, (f, k0)) =
      (pg\<lparr>contents := contents pg @ x_lines 9 10 (6 / 5) scenario_yes (u1, u2, u3, u4)\<rparr>, (f, k0 + 4))"
    by (simp add: mark_page_eq assms(1) y_threshold_of_def scenario_marked jitter_def
        u1_def u2_def u3_def u4_def)
  moreover have "x_lines 9 10 (6 / 5) scenario_yes (u1, u2, u3, u4) =
      [Line (cx - h, cy - h) (cx + h, cy + h) red wl, Line (cx - h, cy + h) (cx + h, cy - h) red wl]"
    by (simp add: x_lines_def Let_def cx_def cy_def h_def wl_def scenario_yes_def)
  ultimately have "fst (mark_yes_boxes_red [pg] 9 10 (6 / 5) [] (f, k0)) =
      [pg\<lparr>contents := contents pg
         @ [Line (cx - h, cy - h) (cx + h, cy + h) red wl, Line (cx - h, cy + h) (cx + h, cy - h) red wl]\<rparr>]"
    by (simp add: mark_yes_boxes_red_def)
  with bounds h sec nofill show ?thesis by auto
qed

theorem scenario_one_x_and_no_notes_witness:
  "get_text_words scenario_page = [scenario_yes, scenario_no]
   \<and> search_for scenario_page ''Indoor Environmental Quality'' = []
   \<and> (\<forall>k::nat. (0::rat) \<le> (\<lambda>_. 1 / 2) k \<and> (\<lambda>_. 1 / 2) k \<le> (1::rat))
   \<and> find_ieq_sections [scenario_page] = []
   \<and> (\<exists>cx cy h wl. 0 < h \<and> 179 / 2 \<le> cx \<and> cx \<le> 185 / 2 \<and> 1024 / 5 \<le> cy \<and> cy \<le> 1036 / 5
          \<and> fst (mark_yes_boxes_red [scenario_page] 9 10 (6 / 5) (find_ieq_sections [scenario_page])
                (\<lambda>_. 1 / 2, 0)) =
              [scenario_page\<lparr>contents := contents scenario_page
                 @ [Line (cx - h, cy - h) (cx + h, cy + h) red wl,
                    Line (cx - h, cy + h) (cx + h, cy - h) red wl]\<rparr>])
   \<and> (\<forall>doc'. insert_ieq_notes_na doc' (find_ieq_sections [scenario_page]) = Inr doc')"
proof -
  have 1: "get_text_words scenario_page = [scenario_yes, scenario_no]"
    and 2: "search_for scenario_page ''Indoor Environmental Quality'' = []"
    by (simp_all add: scenario_page_def)
  have 3: "\<forall>k::nat. (0::rat) \<le> (\<lambda>_. 1 / 2) k \<and> (\<lambda>_. 1 / 2) k \<le> (1::rat)" by simp
  from scenario_one_x_and_no_notes [OF 1 2 3, of 0] 1 2 3 show ?thesis by blast
qed

section \<open>Properties of the Signature Filler\<close>

subsection \<open>Selecting the page\<close>

lemma min_fold:
  "foldl (min_step key ok v) (bg, b) xs = (m, r) \<Longrightarrow>
     (m = bg \<and> r = b \<and> (\<forall>x \<in> set xs. ok x \<longrightarrow> bg \<le> key x))
     \<or> (m < bg \<and> (\<exists>ys x zs. xs = ys @ x # zs \<and> ok x \<and> key x = m \<and> r = Some (v x)
            \<and> (\<forall>y \<in> set ys. ok y \<longrightarrow> m < key y) \<and> (\<forall>z \<in> set zs. ok z \<longrightarrow> m \<le> key z)))"
proof (induction xs arbitrary: bg b)
  case Nil
  then show ?case by simp
next
  case (Cons a xs)
  show ?case
  proof (cases "ok a \<and> key a < bg")
    case True
    then have "min_step key ok v (bg, b) a = (key a, Some (v a))"
      by (simp add: min_step_def)
    with Cons.prems have f: "foldl (min_step key ok v) (key a, Some (v a)) xs = (m, r)"
      by simp
    from Cons.IH [OF f] show ?thesis
    proof
      assume "m = key a \<and> r = Some (v a) \<and> (\<forall>x \<in> set xs. ok x \<longrightarrow> key a \<le> key x)"
      with True have "m < bg \<and> a # xs = [] @ a # xs \<and> ok a \<and> key a = m \<and> r = Some (v a)
            \<and> (\<forall>y \<in> set []. ok y \<longrightarrow> m < key y) \<and> (\<forall>z \<in> set xs. ok z \<longrightarrow> m \<le> key z)"
        by simp
      then show ?thesis by blast
    next
      assume "m < key a \<and> (\<exists>ys x zs. xs = ys @ x # zs \<and> ok x \<and> key x = m \<and> r = Some (v x)
            \<and> (\<forall>y \<in> set ys. ok y \<longrightarrow> m < key y) \<and> (\<forall>z \<in> set zs. ok z \<longrightarrow> m \<le> key z))"
      then obtain ys x zs where m: "m < key a" and s: "xs = ys @ x # zs" "ok x" "key x = m" "r = Some (v x)"
        "\<forall>y \<in> set ys. ok y \<longrightarrow> m < key y" "\<forall>z \<in> set zs. ok z \<longrightarrow> m \<le> key z"
        by blast
      from m True s have "m < bg \<and> a # xs = (a # ys) @ x # zs \<and> ok x \<and> key x = m \<and> r = Some (v x)
            \<and> (\<forall>y \<in> set (a # ys). ok y \<longrightarrow> m < key y) \<and> (\<forall>z \<in> set zs. ok z \<longrightarrow> m \<le> key z)"
        by auto
      then show ?thesis by blast
    qed
  next
    case False
    then have "min_step key ok v (bg, b) a = (bg, b)"
      by (auto simp: min_step_def)
    with Cons.prems have f: "foldl (min_step key ok v) (bg, b) xs = (m, r)"
      by simp
    from Cons.IH [OF f] show ?thesis
    proof
      assume "m = bg \<and> r = b \<and> (\<forall>x \<in> set xs. ok x \<longrightarrow> bg \<le> key x)"
      with False show ?thesis by auto
    next
      assume "m < bg \<and> (\<exists>ys x zs. xs = ys @ x # zs \<and> ok x \<and> key x = m \<and> r = Some (v x)
            \<and> (\<forall>y \<in> set ys. ok y \<longrightarrow> m < key y) \<and> (\<forall>z \<in> set zs. ok z \<longrightarrow> m \<le> key z))"
      then obtain ys x zs where m: "m < bg" and s: "xs = ys @ x # zs" "ok x" "key x = m" "r = Some (v x)"
        "\<forall>y \<in> set ys. ok y \<longrightarrow> m < key y" "\<forall>z \<in> set zs. ok z \<longrightarrow> m \<le> key z"
        by blast
      from m False s have "m < bg \<and> a # xs = (a # ys) @ x # zs \<and> ok x \<and> key x = m \<and> r = Some (v x)
            \<and> (\<forall>y \<in> set (a # ys). ok y \<longrightarrow> m < key y) \<and> (\<forall>z \<in> set zs. ok z \<longrightarrow> m \<le> key z)"
        by auto
      then show ?thesis by blast
    qed
  qed
qed

lemma foldl_product:
  "foldl (\<lambda>acc s. foldl (f s) acc ds) acc ss = foldl (\<lambda>acc (s, d). f s acc d) acc (List.product ss ds)"
proof (induction ss arbitrary: acc)
  case Nil
  show ?case by simp
next
  case (Cons s ss)
  have "foldl (\<lambda>acc (s, d). f s acc d) a (map (Pair s) ds) = foldl (f s) a ds" for a
    by (induction ds arbitrary: a) simp_all
  then show ?case by (simp add: Cons.IH)
qed

lemma find_phrase_loop_eq:
  "fst (find_phrase_loop is doc) = find (has_phrase doc) is"
  by (induction "is") (simp_all add: search_page_def has_phrase_def)

lemma page_gaps_eq:
  "page_gaps i (search_for (doc ! i) ''Signature'') (search_for (doc ! i) ''Date'') acc =
     foldl (min_step snd (\<lambda>_. True) fst) acc (map (Pair i) (pair_gaps doc i))"
proof -
  have 1: "gap_step i s acc d = min_step snd (\<lambda>_. True) fst acc (i, label_gap s d)" for s acc d
    by (simp add: gap_step_def min_step_def label_gap_def Let_def)
  have 2: "foldl (\<lambda>acc (s, d). gap_step i s acc d) acc ps =
      foldl (min_step snd (\<lambda>_. True) fst) acc (map (Pair i) (map (\<lambda>(s, d). label_gap s d) ps))"
    for ps
    by (induction ps arbitrary: acc) (simp_all add: 1 split: prod.split)
  show ?thesis
    unfolding page_gaps_def foldl_product pair_gaps_def by (rule 2)
qed

lemma nearest_loop_eq:
  "fst (nearest_loop is acc doc) = foldl (min_step snd (\<lambda>_. True) fst) acc (page_pairs doc is)"
  by (induction "is" arbitrary: acc) (simp_all add: search_page_def page_gaps_eq page_pairs_def)

lemma find_signature_page_eq:
  "find_signature_page doc =
     (case find (has_phrase doc) [0..<length doc] of
        Some i \<Rightarrow> i
      | None \<Rightarrow>
          (case snd (foldl (min_step snd (\<lambda>_. True) fst) (10 ^ 9, None) (page_pairs doc [0..<length doc])) of
             Some b \<Rightarrow> b
           | None \<Rightarrow> length doc - 2))"
proof -
  obtain a d where p: "find_phrase_loop [0..<length doc] doc = (a, d)" by (metis surj_pair)
  then have a: "a = find (has_phrase doc) [0..<length doc]" and d: "d = doc"
    using find_phrase_loop_eq [of "[0..<length doc]" doc] find_phrase_loop_frameD [OF p] by simp_all
  obtain acc d2 where n: "nearest_loop [0..<length doc] (10 ^ 9, None) doc = (acc, d2)"
    by (metis surj_pair)
  then have acc: "acc = foldl (min_step snd (\<lambda>_. True) fst) (10 ^ 9, None) (page_pairs doc [0..<length doc])"
    and d2: "d2 = doc"
    using nearest_loop_eq [of "[0..<length doc]" "(10 ^ 9, None)" doc] nearest_loop_frameD [OF n]
    by simp_all
  have "nat (max 0 (int (length doc) - 2)) = length doc - 2" by simp
  then show ?thesis
    unfolding find_signature_page_def find_signature_page_st_def p d
    using n a acc d2 by (simp split: option.split prod.split)
qed



lemma page_pairs_set:
  "(i, g) \<in> set (page_pairs doc is) \<longleftrightarrow> i \<in> set is \<and> g \<in> set (pair_gaps doc i)"
  by (auto simp: page_pairs_def)







subsection \<open>Filling the page\<close>

lemma find_signature_page_bound:
  assumes "doc \<noteq> []"
  shows "find_signature_page doc < length doc"
proof (cases "find (has_phrase doc) [0..<length doc]")
  case (Some i)
  then have "i \<in> set [0..<length doc]" by (auto simp: find_Some_iff)
  with Some show ?thesis by (simp add: find_signature_page_eq)
next
  case None
  let ?L = "page_pairs doc [0..<length doc]"
  obtain m r where f: "foldl (min_step snd (\<lambda>_. True) fst) (10 ^ 9, None) ?L = (m, r)"
    by (metis surj_pair)
  from min_fold [OF f] have "r = None \<or> (\<exists>x \<in> set ?L. r = Some (fst x))" by auto
  moreover have "fst x < length doc" if "x \<in> set ?L" for x
  proof -
    from that have "(fst x, snd x) \<in> set ?L" by simp
    then show ?thesis unfolding page_pairs_set by simp
  qed
  ultimately have "(case r of Some b \<Rightarrow> b | None \<Rightarrow> length doc - 2) < length doc"
    using assms by auto
  with None f show ?thesis by (simp add: find_signature_page_eq)
qed

lemma choose_date_eq: "choose_date ny ds = find (\<lambda>d. ny - 5 \<le> y0 d) ds"
  by (induction ds) simp_all

lemma fill_signature_eq:
  assumes "doc \<noteq> []"
  shows "fill_signature_section_red gtl doc signer_name bottom_date tol =
     Inr (doc[find_signature_page doc :=
        (doc ! find_signature_page doc)\<lparr>contents := contents (doc ! find_signature_page doc)
           @ name_texts gtl (doc ! find_signature_page doc) signer_name
           @ na_texts gtl (doc ! find_signature_page doc)
           @ label_texts signer_name bottom_date
               (pair_labels tol (search_for (doc ! find_signature_page doc) ''Signature'')
                  (search_for (doc ! find_signature_page doc) ''Date''))\<rparr>])"
  using find_signature_page_bound [OF assms]
  by (simp add: fill_signature_section_red_def Let_def insert_text_def name_texts_def na_texts_def
      chosen_date_def label_texts_def choose_date_eq
      split: list.split option.split prod.split)













text \<open>
  Claim C7 at the document without pages: no page matches a locator rule, the fallback
  yields index 0, and \<^verbatim>\<open>doc[0]\<close> raises \<^verbatim>\<open>IndexError\<close>. On every document with a page
  the function returns (lemma \<open>fill_signature_total\<close> below).
\<close>

theorem empty_document_raises:
  "find_signature_page [] = 0
   \<and> fill_signature_section_red gtl [] signer_name bottom_date tol = Inl IndexError"
proof -
  have "find_signature_page [] = 0"
    by (simp add: find_signature_page_eq page_pairs_def)
  then show ?thesis by (simp add: fill_signature_section_red_def)
qed

lemma fill_signature_total:
  "doc \<noteq> [] \<Longrightarrow> \<exists>doc'. fill_signature_section_red gtl doc signer_name bottom_date tol = Inr doc'"
  by (simp add: fill_signature_eq)

end
